theory Spec2Isabelle
  imports Main
begin

section \<open>Python values used by the optimizer\<close>

text \<open>
  Seconds, vehicle counts, pixel coordinates and track identifiers are Python
  numbers that the code only compares, adds, subtracts and halves; they are
  modelled as \<^typ>\<open>int\<close>, so times are whole seconds (the application also
  passes fractions of a second, which the optimizer treats in the same way).
  The signal states are the strings
  \<^verbatim>\<open>'GREEN'\<close>, \<^verbatim>\<open>'YELLOW'\<close>, \<^verbatim>\<open>'RED'\<close> and \<^verbatim>\<open>"OBSERVATION"\<close>, used as an
  enumeration.  The exceptions that the modelled code can raise are
  \<^verbatim>\<open>IndexError\<close> (list subscript) and \<^verbatim>\<open>queue.Full\<close> / \<^verbatim>\<open>queue.Empty\<close>.
\<close>

datatype signal_state = GREEN | YELLOW | RED | OBSERVATION

datatype error = IndexError | Full | Empty

text \<open>
  A list subscript \<^verbatim>\<open>xs[i]\<close>: an index from \<open>0\<close> to \<open>len - 1\<close> is taken as it
  is, an index from \<open>-len\<close> to \<open>-1\<close> counts from the end, anything else raises
  \<^verbatim>\<open>IndexError\<close>.
\<close>

definition py_index :: "'a list \<Rightarrow> int \<Rightarrow> nat option" where
  "py_index xs i =
     (let n = int (length xs) in
      if 0 \<le> i \<and> i < n then Some (nat i)
      else if - n \<le> i \<and> i < 0 then Some (nat (n + i))
      else None)"

definition py_get :: "'a list \<Rightarrow> int \<Rightarrow> error + 'a" where
  "py_get xs i = (case py_index xs i of None \<Rightarrow> Inl IndexError | Some k \<Rightarrow> Inr (xs ! k))"

definition py_set :: "'a list \<Rightarrow> int \<Rightarrow> 'a \<Rightarrow> error + 'a list" where
  "py_set xs i v = (case py_index xs i of None \<Rightarrow> Inl IndexError | Some k \<Rightarrow> Inr (xs[k := v]))"


section \<open>The optimizer state\<close>

text \<open>
  The fields of \<^verbatim>\<open>IntelligentTrafficOptimizer\<close> that the timing, observation and
  cycle operations read or write.  The attributes \<^verbatim>\<open>yellow_time\<close> and
  \<^verbatim>\<open>observation_duration\<close> are assigned once in \<^verbatim>\<open>__init__\<close> and nowhere
  else, and the list \<^verbatim>\<open>phases\<close> is built with four entries and never resized,
  so they appear as constants.
\<close>

record optimizer =
  cycle_number :: int
  phase_elapsed_times :: "int list"
  observation_enabled :: bool
  lane_observation_times :: "int list"
  observation_vehicle_counts :: "int list"
  lanes_ready :: "bool list"
  current_cycle_timings :: "int list"

definition yellow_time :: int where
  "yellow_time = 3"

definition observation_duration :: int where
  "observation_duration = 30"

definition num_phases :: int where
  "num_phases = 4"

definition init_optimizer :: optimizer where
  "init_optimizer =
     \<lparr>cycle_number = 0,
      phase_elapsed_times = [0, 0, 0, 0],
      observation_enabled = True,
      lane_observation_times = [0, 0, 0, 0],
      observation_vehicle_counts = [0, 0, 0, 0],
      lanes_ready = [False, False, False, False],
      current_cycle_timings = [30, 22, 0, 0]\<rparr>"

text \<open>
  A method that mutates the object either returns (\<open>Inr\<close> the new state) or
  raises (\<open>Inl\<close> the exception together with the state the object is left in,
  since assignments made before the exception stay).
\<close>

type_synonym outcome = "(error \<times> optimizer) + optimizer"

definition state_of :: "outcome \<Rightarrow> optimizer" where
  "state_of r = (case r of Inl (e, s) \<Rightarrow> s | Inr s \<Rightarrow> s)"

text \<open>
  The per-lane lists are created with four entries; \<open>four_slots\<close> says that
  they still have four, which every operation below preserves.
\<close>

definition four_slots :: "optimizer \<Rightarrow> bool" where
  "four_slots s \<longleftrightarrow>
     length (phase_elapsed_times s) = 4 \<and>
     length (lane_observation_times s) = 4 \<and>
     length (observation_vehicle_counts s) = 4 \<and>
     length (lanes_ready s) = 4 \<and>
     length (current_cycle_timings s) = 4"


section \<open>Operations of the optimizer\<close>

definition update_phase_elapsed_time :: "optimizer \<Rightarrow> int \<Rightarrow> int \<Rightarrow> outcome" where
  "update_phase_elapsed_time s phase_id elapsed_time =
     (if phase_id < int (length (phase_elapsed_times s)) then
        (case py_set (phase_elapsed_times s) phase_id elapsed_time of
           Inl e \<Rightarrow> Inl (e, s)
         | Inr ts \<Rightarrow> Inr (s\<lparr>phase_elapsed_times := ts\<rparr>))
      else Inr s)"

definition get_signal_state :: "optimizer \<Rightarrow> int \<Rightarrow> error + signal_state" where
  "get_signal_state s lane_id =
     (if lane_id \<ge> num_phases then Inr RED
      else
        (case (if lane_id < int (length (current_cycle_timings s))
               then py_get (current_cycle_timings s) lane_id else Inr 0) of
           Inl e \<Rightarrow> Inl e
         | Inr green_duration \<Rightarrow>
             (case py_get (phase_elapsed_times s) lane_id of
                Inl e \<Rightarrow> Inl e
              | Inr elapsed_time \<Rightarrow>
                  if green_duration = 0 then Inr RED
                  else if elapsed_time < green_duration then Inr GREEN
                  else if elapsed_time < green_duration + yellow_time then Inr YELLOW
                  else Inr RED)))"

definition get_green_time :: "optimizer \<Rightarrow> int \<Rightarrow> error + int" where
  "get_green_time s lane_id =
     (if lane_id \<ge> int (length (current_cycle_timings s)) then Inr 0
      else
        (case py_get (current_cycle_timings s) lane_id of
           Inl e \<Rightarrow> Inl e
         | Inr green_duration \<Rightarrow>
             (case py_get (phase_elapsed_times s) lane_id of
                Inl e \<Rightarrow> Inl e
              | Inr elapsed_time \<Rightarrow>
                  if elapsed_time < green_duration
                  then Inr (max 0 (green_duration - elapsed_time))
                  else Inr 0)))"

definition set_cycle_timing :: "optimizer \<Rightarrow> int list \<Rightarrow> outcome" where
  "set_cycle_timing s cycle_timings =
     (if length cycle_timings = 4 then
        Inr (s\<lparr>current_cycle_timings := cycle_timings,
                phase_elapsed_times := [0, 0, 0, 0],
                cycle_number := cycle_number s + 1\<rparr>)
      else Inr s)"

text \<open>The body of the loop of \<^verbatim>\<open>predict_next_cycle_timings\<close>: one lane's bucket.\<close>

definition bucket_duration :: "int \<Rightarrow> int" where
  "bucket_duration vehicle_count =
     (if vehicle_count = 0 then 0
      else if vehicle_count < 5 then 15
      else if vehicle_count < 10 then 25
      else if vehicle_count < 15 then 35
      else 55)"

text \<open>
  The argument is a dictionary from lane id to vehicle count, read with
  \<^verbatim>\<open>.get(lane_id, 0)\<close> for \<^verbatim>\<open>lane_id in range(4)\<close>.
\<close>

definition predict_next_cycle_timings :: "(int \<rightharpoonup> int) \<Rightarrow> int list" where
  "predict_next_cycle_timings lane_metrics_dict =
     map (\<lambda>lane_id. bucket_duration
            (case lane_metrics_dict lane_id of None \<Rightarrow> 0 | Some c \<Rightarrow> c))
         [0, 1, 2, 3]"

definition update_observation_time :: "optimizer \<Rightarrow> int \<Rightarrow> int \<Rightarrow> outcome" where
  "update_observation_time s lane_id elapsed_seconds =
     (if lane_id < 4 then
        (case py_set (lane_observation_times s) lane_id
                (min elapsed_seconds observation_duration) of
           Inl e \<Rightarrow> Inl (e, s)
         | Inr ts \<Rightarrow>
             (let s1 = s\<lparr>lane_observation_times := ts\<rparr> in
              if elapsed_seconds \<ge> observation_duration then
                (case py_get (lanes_ready s1) lane_id of
                   Inl e \<Rightarrow> Inl (e, s1)
                 | Inr ready \<Rightarrow>
                     if \<not> ready then
                       (case py_set (lanes_ready s1) lane_id True of
                          Inl e \<Rightarrow> Inl (e, s1)
                        | Inr rs \<Rightarrow>
                            (let s2 = s1\<lparr>lanes_ready := rs\<rparr> in
                             case py_get (observation_vehicle_counts s2) lane_id of
                               Inl e \<Rightarrow> Inl (e, s2)
                             | Inr shown \<Rightarrow>
                                 if list_all (\<lambda>b. b) (lanes_ready s2)
                                 then Inr (s2\<lparr>observation_enabled := False\<rparr>)
                                 else Inr s2))
                     else Inr s1)
              else Inr s1))
      else Inr s)"

definition record_observation_vehicle_count :: "optimizer \<Rightarrow> int \<Rightarrow> int \<Rightarrow> outcome" where
  "record_observation_vehicle_count s lane_id vehicle_count =
     (if lane_id < 4 then
        (case py_get (observation_vehicle_counts s) lane_id of
           Inl e \<Rightarrow> Inl (e, s)
         | Inr old \<Rightarrow>
             (case py_set (observation_vehicle_counts s) lane_id (max old vehicle_count) of
                Inl e \<Rightarrow> Inl (e, s)
              | Inr cs \<Rightarrow> Inr (s\<lparr>observation_vehicle_counts := cs\<rparr>)))
      else Inr s)"

text \<open>
  \<^verbatim>\<open>VehicleDetector.get_signal_state\<close> of the application: the shared optimizer
  may be absent (\<open>None\<close>), the observation flag overrides the timing, and any
  exception of the optimizer's query is caught and shown as observation.
\<close>

definition detector_get_signal_state :: "optimizer option \<Rightarrow> int \<Rightarrow> signal_state" where
  "detector_get_signal_state global_optimizer lane_id =
     (case global_optimizer of
        None \<Rightarrow> OBSERVATION
      | Some s \<Rightarrow>
          if observation_enabled s then OBSERVATION
          else (case get_signal_state s lane_id of
                  Inl e \<Rightarrow> OBSERVATION
                | Inr st \<Rightarrow> st))"


text \<open>
  A state in signal-control mode with the seed timings \<open>[30, 22, 0, 0]\<close> and
  the given elapsed counters, used to state the examples.
\<close>

definition controlling_at :: "int list \<Rightarrow> optimizer" where
  "controlling_at elapsed =
     init_optimizer\<lparr>observation_enabled := False, phase_elapsed_times := elapsed\<rparr>"


section \<open>Sequences of observation-time updates\<close>

text \<open>
  The calls \<^verbatim>\<open>update_observation_time(lane_id, elapsed_seconds)\<close> made one after
  the other on the same object.  A call that raises leaves the object in the
  state it had reached, and the next call works on that state (the worker
  thread of the application catches the exception and goes on with the next
  frame).  \<open>mode_trace\<close> lists the observation flag before the first call and
  after each call, and \<open>flips\<close> counts the places where it goes from observation
  (\<open>True\<close>) to controlling (\<open>False\<close>).
\<close>

fun run_updates :: "optimizer \<Rightarrow> (int \<times> int) list \<Rightarrow> optimizer" where
  "run_updates s [] = s"
| "run_updates s ((lane_id, elapsed_seconds) # us) =
     run_updates (state_of (update_observation_time s lane_id elapsed_seconds)) us"

fun mode_trace :: "optimizer \<Rightarrow> (int \<times> int) list \<Rightarrow> bool list" where
  "mode_trace s [] = [observation_enabled s]"
| "mode_trace s ((lane_id, elapsed_seconds) # us) =
     observation_enabled s #
     mode_trace (state_of (update_observation_time s lane_id elapsed_seconds)) us"

fun flips :: "bool list \<Rightarrow> nat" where
  "flips (a # b # bs) = (if a \<and> \<not> b then 1 else 0) + flips (b # bs)"
| "flips bs = 0"

text \<open>
  The invariant of the barrier: the per-lane lists have four slots, and the
  mode is observation exactly while some lane is not ready.
\<close>

definition barrier_inv :: "optimizer \<Rightarrow> bool" where
  "barrier_inv s \<longleftrightarrow>
     four_slots s \<and> (observation_enabled s \<longleftrightarrow> \<not> list_all (\<lambda>b. b) (lanes_ready s))"


section \<open>Counting line crossings\<close>









section \<open>The per-lane queues\<close>

text \<open>
  \<^verbatim>\<open>queue.Queue(maxsize=n)\<close> of the Python standard library, seen from one
  thread: \<^verbatim>\<open>put(item, block=False)\<close> raises \<^verbatim>\<open>Full\<close> when \<open>maxsize\<close> is
  positive and the queue holds that many items, and appends otherwise;
  \<^verbatim>\<open>get_nowait()\<close> raises \<^verbatim>\<open>Empty\<close> on an empty queue and removes the oldest
  item otherwise.
\<close>

record 'a py_queue =
  maxsize :: int
  items :: "'a list"

definition put_nowait :: "'a py_queue \<Rightarrow> 'a \<Rightarrow> error + 'a py_queue" where
  "put_nowait q item =
     (if maxsize q > 0 \<and> int (length (items q)) \<ge> maxsize q then Inl Full
      else Inr (q\<lparr>items := items q @ [item]\<rparr>))"

definition get_nowait :: "'a py_queue \<Rightarrow> error + ('a \<times> 'a py_queue)" where
  "get_nowait q =
     (case items q of
        [] \<Rightarrow> Inl Empty
      | item # rest \<Rightarrow> Inr (item, q\<lparr>items := rest\<rparr>))"

text \<open>
  The producer's step in \<^verbatim>\<open>video_processing_thread\<close>: put without blocking;
  on \<^verbatim>\<open>Full\<close> take one item out and put again, where \<^verbatim>\<open>Empty\<close> is swallowed
  and any other exception goes on to the caller.
\<close>

definition push :: "'a py_queue \<Rightarrow> 'a \<Rightarrow> error + 'a py_queue" where
  "push q item =
     (case put_nowait q item of
        Inr q' \<Rightarrow> Inr q'
      | Inl e \<Rightarrow>
          if e = Full then
            (case get_nowait q of
               Inl e1 \<Rightarrow> if e1 = Empty then Inr q else Inl e1
             | Inr (oldest, q1) \<Rightarrow>
                 (case put_nowait q1 item of
                    Inr q2 \<Rightarrow> Inr q2
                  | Inl e2 \<Rightarrow> if e2 = Empty then Inr q1 else Inl e2))
          else Inl e)"

fun push_all :: "'a py_queue \<Rightarrow> 'a list \<Rightarrow> error + 'a py_queue" where
  "push_all q [] = Inr q"
| "push_all q (item # rest) =
     (case push q item of Inl e \<Rightarrow> Inl e | Inr q' \<Rightarrow> push_all q' rest)"

definition frame_queue :: "'a py_queue" where
  "frame_queue = \<lparr>maxsize = 2, items = []\<rparr>"

definition data_queue :: "'a py_queue" where
  "data_queue = \<lparr>maxsize = 5, items = []\<rparr>"


section \<open>Subscripts on four-slot lists\<close>

lemma py_index_in_range:
  "0 \<le> i \<Longrightarrow> i < int (length xs) \<Longrightarrow> py_index xs i = Some (nat i)"
  by (simp add: py_index_def)

lemma py_index_too_small:
  "i < - int (length xs) \<Longrightarrow> py_index xs i = None"
  by (simp add: py_index_def)

lemma py_index_bound:
  "py_index xs i = Some k \<Longrightarrow> k < length xs"
  by (auto simp: py_index_def Let_def split: if_splits)

lemma py_index_same_length:
  "length xs = length ys \<Longrightarrow> py_index xs i = py_index ys i"
  by (simp add: py_index_def)

lemma py_get_in_range:
  "0 \<le> i \<Longrightarrow> i < int (length xs) \<Longrightarrow> py_get xs i = Inr (xs ! nat i)"
  by (simp add: py_get_def py_index_in_range)

lemma four_slots_init: "four_slots init_optimizer"
  by (simp add: four_slots_def init_optimizer_def)


section \<open>The operations on states with four-slot lists\<close>

text \<open>
  On a state whose per-lane lists all have four slots, a subscript with the
  lane id either fails on the first list it meets, before anything is
  assigned, or succeeds on all of them with the same position.
\<close>

lemma update_observation_time_four_slots:
  assumes "four_slots s"
  shows "update_observation_time s lane e =
     (if lane < 4 then
        (case py_index (lanes_ready s) lane of
           None \<Rightarrow> Inl (IndexError, s)
         | Some k \<Rightarrow>
             Inr (s\<lparr>lane_observation_times :=
                       (lane_observation_times s)[k := min e observation_duration],
                     lanes_ready :=
                       (if observation_duration \<le> e then (lanes_ready s)[k := True]
                        else lanes_ready s),
                     observation_enabled :=
                       (if observation_duration \<le> e \<and> \<not> lanes_ready s ! k \<and>
                           list_all (\<lambda>b. b) ((lanes_ready s)[k := True])
                        then False else observation_enabled s)\<rparr>))
      else Inr s)"
proof (cases "py_index (lanes_ready s) lane")
  case None
  with assms have "py_index (lane_observation_times s) lane = None"
    using py_index_same_length [of "lane_observation_times s" "lanes_ready s" lane]
    by (simp add: four_slots_def)
  with None show ?thesis
    by (simp add: update_observation_time_def py_set_def)
next
  case (Some k)
  with assms have a: "py_index (lane_observation_times s) lane = Some k"
    and b: "py_index (observation_vehicle_counts s) lane = Some k"
    using py_index_same_length [of "lane_observation_times s" "lanes_ready s" lane]
      py_index_same_length [of "observation_vehicle_counts s" "lanes_ready s" lane]
    by (simp_all add: four_slots_def)
  have c: "lanes_ready s ! k \<Longrightarrow> (lanes_ready s)[k := True] = lanes_ready s"
    by (metis list_update_id)
  show ?thesis using Some a b c
    by (simp add: update_observation_time_def py_set_def py_get_def Let_def)
qed

lemma update_phase_elapsed_time_four_slots:
  assumes "four_slots s"
  shows "update_phase_elapsed_time s lane e =
     (if lane < 4 then
        (case py_index (phase_elapsed_times s) lane of
           None \<Rightarrow> Inl (IndexError, s)
         | Some k \<Rightarrow> Inr (s\<lparr>phase_elapsed_times := (phase_elapsed_times s)[k := e]\<rparr>))
      else Inr s)"
  using assms
  by (simp add: update_phase_elapsed_time_def py_set_def four_slots_def split: option.splits)

lemma record_observation_vehicle_count_cases:
  "record_observation_vehicle_count s lane c =
     (if lane < 4 then
        (case py_index (observation_vehicle_counts s) lane of
           None \<Rightarrow> Inl (IndexError, s)
         | Some k \<Rightarrow>
             Inr (s\<lparr>observation_vehicle_counts :=
                       (observation_vehicle_counts s)
                         [k := max (observation_vehicle_counts s ! k) c]\<rparr>))
      else Inr s)"
  by (simp add: record_observation_vehicle_count_def py_set_def py_get_def
      split: option.splits)

lemma get_signal_state_in_range:
  assumes "four_slots s" "0 \<le> lane" "lane < 4"
  shows "get_signal_state s lane =
     Inr (let g = current_cycle_timings s ! nat lane;
              e = phase_elapsed_times s ! nat lane in
          if g = 0 then RED
          else if e < g then GREEN
          else if e < g + 3 then YELLOW
          else RED)"
  using assms
  by (simp add: get_signal_state_def four_slots_def num_phases_def yellow_time_def
      py_get_in_range Let_def)

text \<open>Every mutating operation keeps the four slots of every per-lane list.\<close>

lemma four_slots_update_observation_time:
  assumes "four_slots s"
  shows "four_slots (state_of (update_observation_time s lane e))"
  using assms
  by (auto simp: update_observation_time_four_slots [OF assms] state_of_def four_slots_def
      split: option.splits)

lemma four_slots_update_phase_elapsed_time:
  assumes "four_slots s"
  shows "four_slots (state_of (update_phase_elapsed_time s lane e))"
  using assms
  by (auto simp: update_phase_elapsed_time_four_slots [OF assms] state_of_def four_slots_def
      split: option.splits)

lemma four_slots_record_observation_vehicle_count:
  assumes "four_slots s"
  shows "four_slots (state_of (record_observation_vehicle_count s lane c))"
  using assms
  by (auto simp: record_observation_vehicle_count_cases state_of_def four_slots_def
      split: option.splits)

lemma four_slots_set_cycle_timing:
  assumes "four_slots s"
  shows "four_slots (state_of (set_cycle_timing s ts))"
  using assms by (simp add: set_cycle_timing_def state_of_def four_slots_def)

text \<open>
  The subscripts themselves do not check the sign: on a four-slot state a
  lane id from \<open>-4\<close> to \<open>-1\<close> reads the slot of lane \<open>lane + 4\<close>.
\<close>

lemma negative_lane_reads_from_end:
  assumes "four_slots s" and "- 4 \<le> lane" and "lane < 0"
  shows "get_signal_state s lane = get_signal_state s (lane + 4)"
proof -
  from assms
  have a: "py_get (current_cycle_timings s) lane = py_get (current_cycle_timings s) (lane + 4)"
    and b: "py_get (phase_elapsed_times s) lane = py_get (phase_elapsed_times s) (lane + 4)"
    by (simp_all add: py_get_def py_index_def four_slots_def add.commute)
  from assms show ?thesis
    by (simp add: get_signal_state_def four_slots_def num_phases_def a b cong: sum.case_cong)
qed


section \<open>The derived signal state\<close>

lemmas eval_signal =
  detector_get_signal_state_def get_signal_state_def py_get_def py_index_def
  controlling_at_def init_optimizer_def num_phases_def yellow_time_def

text \<open>
  Claim C1.  For a lane id from 0 to 3 the signal state shown by the detector
  is determined by the cycle timing vector, the lane's elapsed time and the
  observation flag: it is OBSERVATION when the flag is set; otherwise, with
  \<open>g\<close> the lane's green duration and \<open>e\<close> its elapsed time, RED if \<open>g = 0\<close>,
  GREEN if \<open>e < g\<close>, YELLOW if \<open>g \<le> e < g + 3\<close>, and RED otherwise.  With the
  timings 30, 22, 0, 0 in controlling mode the four states are GREEN, GREEN,
  RED, RED when every elapsed time is 10, and YELLOW, RED, RED, RED when every
  elapsed time is 31.
\<close>

theorem signal_state_derivation:
  "(four_slots s \<and> lane \<in> {0, 1, 2, 3} \<longrightarrow>
      detector_get_signal_state (Some s) lane =
        (if observation_enabled s then OBSERVATION
         else let g = current_cycle_timings s ! nat lane;
                  e = phase_elapsed_times s ! nat lane in
              if g = 0 then RED
              else if e < g then GREEN
              else if g \<le> e \<and> e < g + 3 then YELLOW
              else RED)) \<and>
   current_cycle_timings (controlling_at [10, 10, 10, 10]) = [30, 22, 0, 0] \<and>
   map (detector_get_signal_state (Some (controlling_at [10, 10, 10, 10]))) [0, 1, 2, 3]
     = [GREEN, GREEN, RED, RED] \<and>
   map (detector_get_signal_state (Some (controlling_at [31, 31, 31, 31]))) [0, 1, 2, 3]
     = [YELLOW, RED, RED, RED]"
proof -
  have general: "detector_get_signal_state (Some s) lane =
        (if observation_enabled s then OBSERVATION
         else let g = current_cycle_timings s ! nat lane;
                  e = phase_elapsed_times s ! nat lane in
              if g = 0 then RED
              else if e < g then GREEN
              else if g \<le> e \<and> e < g + 3 then YELLOW
              else RED)"
    if "four_slots s" "lane \<in> {0, 1, 2, 3}"
  proof -
    from that have "0 \<le> lane" "lane < 4" by auto
    from get_signal_state_in_range [OF \<open>four_slots s\<close> this]
    show ?thesis by (simp add: detector_get_signal_state_def Let_def)
  qed
  have c0: "current_cycle_timings (controlling_at [10, 10, 10, 10]) = [30, 22, 0, 0]"
    by (simp add: controlling_at_def init_optimizer_def)
  have c1: "map (detector_get_signal_state (Some (controlling_at [10, 10, 10, 10]))) [0, 1, 2, 3]
     = [GREEN, GREEN, RED, RED]"
    by (simp add: eval_signal)
  have c2: "map (detector_get_signal_state (Some (controlling_at [31, 31, 31, 31]))) [0, 1, 2, 3]
     = [YELLOW, RED, RED, RED]"
    by (simp add: eval_signal)
  from general c0 c1 c2 show ?thesis by blast
qed

theorem signal_state_derivation_witness:
  "four_slots (controlling_at [31, 5, 25, 0]) \<and> (1::int) \<in> {0, 1, 2, 3} \<and>
   detector_get_signal_state (Some (controlling_at [31, 5, 25, 0])) 1 = GREEN"
proof -
  have w: "four_slots (controlling_at [31, 5, 25, 0])"
    by (simp add: controlling_at_def four_slots_def init_optimizer_def)
  have l: "(1::int) \<in> {0, 1, 2, 3}" by simp
  from signal_state_derivation [of "controlling_at [31, 5, 25, 0]" 1] w l
  have "detector_get_signal_state (Some (controlling_at [31, 5, 25, 0])) 1 =
        (if observation_enabled (controlling_at [31, 5, 25, 0]) then OBSERVATION
         else let g = current_cycle_timings (controlling_at [31, 5, 25, 0]) ! nat 1;
                  e = phase_elapsed_times (controlling_at [31, 5, 25, 0]) ! nat 1 in
              if g = 0 then RED
              else if e < g then GREEN
              else if g \<le> e \<and> e < g + 3 then YELLOW
              else RED)"
    by blast
  then have "detector_get_signal_state (Some (controlling_at [31, 5, 25, 0])) 1 = GREEN"
    by (simp add: controlling_at_def init_optimizer_def)
  with w l show ?thesis by blast
qed


section \<open>The observation barrier\<close>

lemmas eval_observation =
  update_observation_time_def py_set_def py_get_def py_index_def
  state_of_def init_optimizer_def observation_duration_def

lemma not_all_if_slot_False:
  "k < length rs \<Longrightarrow> \<not> rs ! k \<Longrightarrow> \<not> list_all (\<lambda>b. b) rs"
  by (auto simp: list_all_length)

lemma barrier_inv_init: "barrier_inv init_optimizer"
  by (simp add: barrier_inv_def four_slots_def init_optimizer_def)

lemma barrier_inv_step:
  assumes "barrier_inv s"
  shows "barrier_inv (state_of (update_observation_time s lane e))"
proof -
  from assms have w: "four_slots s"
    and m: "observation_enabled s \<longleftrightarrow> \<not> list_all (\<lambda>b. b) (lanes_ready s)"
    by (simp_all add: barrier_inv_def)
  let ?s' = "state_of (update_observation_time s lane e)"
  have w': "four_slots ?s'" by (rule four_slots_update_observation_time [OF w])
  have "observation_enabled ?s' \<longleftrightarrow> \<not> list_all (\<lambda>b. b) (lanes_ready ?s')"
  proof (cases "lane < 4")
    case False
    then show ?thesis using m by (simp add: update_observation_time_four_slots [OF w] state_of_def)
  next
    case True
    show ?thesis
    proof (cases "py_index (lanes_ready s) lane")
      case None
      with True show ?thesis
        using m by (simp add: update_observation_time_four_slots [OF w] state_of_def)
    next
      case (Some k)
      then have k: "k < length (lanes_ready s)" by (rule py_index_bound)
      show ?thesis
      proof (cases "observation_duration \<le> e")
        case False
        with True Some show ?thesis
          using m by (simp add: update_observation_time_four_slots [OF w] state_of_def)
      next
        case late: True
        show ?thesis
        proof (cases "lanes_ready s ! k")
          case True
          then have "(lanes_ready s)[k := True] = lanes_ready s"
            by (metis list_update_id)
          with True late Some \<open>lane < 4\<close> show ?thesis
            using m by (simp add: update_observation_time_four_slots [OF w] state_of_def)
        next
          case False
          with k have "\<not> list_all (\<lambda>b. b) (lanes_ready s)"
            by (simp add: not_all_if_slot_False)
          with m have "observation_enabled s" by simp
          with False late Some \<open>lane < 4\<close> show ?thesis
            by (simp add: update_observation_time_four_slots [OF w] state_of_def)
        qed
      qed
    qed
  qed
  with w' show ?thesis by (simp add: barrier_inv_def)
qed

lemma barrier_inv_run:
  "barrier_inv s \<Longrightarrow> barrier_inv (run_updates s us)"
  by (induction s us rule: run_updates.induct) (simp_all add: barrier_inv_step)

lemma mode_stays_controlling:
  assumes "four_slots s" and "\<not> observation_enabled s"
  shows "\<not> observation_enabled (state_of (update_observation_time s lane e))"
  using assms(2)
  by (simp add: update_observation_time_four_slots [OF assms(1)] state_of_def split: option.splits)

lemma mode_trace_head:
  "\<exists>bs. mode_trace s us = observation_enabled s # bs"
  by (cases us) auto

lemma flips_controlling:
  "four_slots s \<Longrightarrow> \<not> observation_enabled s \<Longrightarrow> flips (mode_trace s us) = 0"
proof (induction s us rule: mode_trace.induct)
  case (1 s)
  then show ?case by simp
next
  case (2 s lane_id elapsed_seconds us)
  let ?s' = "state_of (update_observation_time s lane_id elapsed_seconds)"
  from 2 have w: "four_slots ?s'" and c: "\<not> observation_enabled ?s'"
    by (simp_all add: four_slots_update_observation_time mode_stays_controlling)
  obtain bs where bs: "mode_trace ?s' us = observation_enabled ?s' # bs"
    using mode_trace_head by blast
  from "2.IH" [OF w c] bs "2.prems" show ?case by simp
qed

lemma flips_at_most_one:
  "four_slots s \<Longrightarrow> flips (mode_trace s us) \<le> 1"
proof (induction s us rule: mode_trace.induct)
  case (1 s)
  then show ?case by simp
next
  case (2 s lane_id elapsed_seconds us)
  let ?s' = "state_of (update_observation_time s lane_id elapsed_seconds)"
  from 2 have w: "four_slots ?s'" by (simp add: four_slots_update_observation_time)
  obtain bs where bs: "mode_trace ?s' us = observation_enabled ?s' # bs"
    using mode_trace_head by blast
  show ?case
  proof (cases "observation_enabled ?s'")
    case True
    with "2.IH" [OF w] bs show ?thesis by simp
  next
    case False
    with flips_controlling [OF w, of us] bs show ?thesis by simp
  qed
qed

lemma ready_lane_update:
  assumes "four_slots s" and "py_index (lanes_ready s) lane = Some k" and "lanes_ready s ! k"
  shows "state_of (update_observation_time s lane e) =
           s\<lparr>lane_observation_times :=
                 (lane_observation_times s)[k := min e observation_duration]\<rparr>"
proof -
  from assms(1,2) have "lane < 4"
    by (auto simp: py_index_def four_slots_def Let_def split: if_splits)
  moreover from assms(3) have "(lanes_ready s)[k := True] = lanes_ready s"
    by (metis list_update_id)
  ultimately show ?thesis
    using assms(2,3)
    by (simp add: update_observation_time_four_slots [OF assms(1)] state_of_def)
qed

text \<open>
  Claim C2, as it is stated, at a concrete sequence.  From the initial state,
  the update \<open>(0, 30)\<close> marks lane 0 ready and stores 30 for it; the further
  update \<open>(0, 5)\<close> for the same lane is not a no-op: it overwrites the stored
  observation time of lane 0 with 5.
\<close>

theorem ready_lane_update_changes_state:
  "lanes_ready (run_updates init_optimizer [(0, 30)]) ! 0 \<and>
   lane_observation_times (run_updates init_optimizer [(0, 30)]) = [30, 0, 0, 0] \<and>
   lane_observation_times (run_updates init_optimizer [(0, 30), (0, 5)]) = [5, 0, 0, 0]"
  by (simp add: eval_observation)

text \<open>
  Claim C2, amended.  Starting from the initial state (observation mode, no
  lane ready), after every sequence of observation-time updates: the mode has
  gone from observation to controlling at most once over the whole sequence;
  there are four readiness flags and the mode is observation exactly when
  some lane is not ready (so three ready lanes and one lane not ready keep
  the mode in observation, and the mode is controlling from the moment the
  last lane becomes ready); and a further update for a lane that is already
  ready changes neither the readiness flags nor the mode: all it does is
  overwrite that lane's stored observation time with \<open>min e 30\<close>.
\<close>

theorem observation_barrier:
  "(let s = run_updates init_optimizer us in
      flips (mode_trace init_optimizer us) \<le> 1 \<and>
      length (lanes_ready s) = 4 \<and>
      (observation_enabled s \<longleftrightarrow> \<not> list_all (\<lambda>b. b) (lanes_ready s)) \<and>
      (\<forall>k. py_index (lanes_ready s) lane = Some k \<and> lanes_ready s ! k \<longrightarrow>
         state_of (update_observation_time s lane e) =
           s\<lparr>lane_observation_times := (lane_observation_times s)[k := min e 30]\<rparr>))"
proof -
  let ?s = "run_updates init_optimizer us"
  have inv: "barrier_inv ?s"
    by (rule barrier_inv_run [OF barrier_inv_init])
  then have w: "four_slots ?s" by (simp add: barrier_inv_def)
  have a: "flips (mode_trace init_optimizer us) \<le> 1"
    by (rule flips_at_most_one [OF four_slots_init])
  have b: "length (lanes_ready ?s) = 4"
    using w by (simp add: four_slots_def)
  have c: "observation_enabled ?s \<longleftrightarrow> \<not> list_all (\<lambda>b. b) (lanes_ready ?s)"
    using inv by (simp add: barrier_inv_def)
  have d: "state_of (update_observation_time ?s lane e) =
           ?s\<lparr>lane_observation_times := (lane_observation_times ?s)[k := min e 30]\<rparr>"
    if "py_index (lanes_ready ?s) lane = Some k" "lanes_ready ?s ! k" for k
    using ready_lane_update [OF w that] by (simp add: observation_duration_def)
  from a b c d show ?thesis unfolding Let_def by blast
qed

theorem observation_barrier_witness:
  "observation_enabled (run_updates init_optimizer [(0, 30), (1, 31), (2, 45)]) \<and>
   lanes_ready (run_updates init_optimizer [(0, 30), (1, 31), (2, 45)])
     = [True, True, True, False] \<and>
   \<not> observation_enabled (run_updates init_optimizer [(0, 30), (1, 31), (2, 45), (3, 30)]) \<and>
   py_index (lanes_ready (run_updates init_optimizer [(0, 30), (1, 31), (2, 45), (3, 30)])) 3
     = Some 3 \<and>
   lanes_ready (run_updates init_optimizer [(0, 30), (1, 31), (2, 45), (3, 30)]) ! 3 \<and>
   \<not> observation_enabled (run_updates init_optimizer
        [(0, 30), (1, 31), (2, 45), (3, 30), (3, 40)]) \<and>
   flips (mode_trace init_optimizer [(0, 30), (1, 31), (2, 45), (3, 30), (3, 40)]) = 1"
proof -
  let ?us = "[(0, 30), (1, 31), (2, 45), (3, 30)] :: (int \<times> int) list"
  have r3: "lanes_ready (run_updates init_optimizer [(0, 30), (1, 31), (2, 45)])
     = [True, True, True, False]"
    by (simp add: eval_observation)
  have r4: "lanes_ready (run_updates init_optimizer ?us) = [True, True, True, True]"
    by (simp add: eval_observation)
  have k: "py_index (lanes_ready (run_updates init_optimizer ?us)) 3 = Some 3"
    unfolding r4 by (simp add: py_index_def)
  have rk: "lanes_ready (run_updates init_optimizer ?us) ! 3"
    unfolding r4 by simp
  note t3 = observation_barrier [of "[(0, 30), (1, 31), (2, 45)]" 0 0]
  note t4 = observation_barrier [of ?us 3 40]
  have o3: "observation_enabled (run_updates init_optimizer [(0, 30), (1, 31), (2, 45)])"
    using t3 r3 by (simp add: Let_def)
  have o4: "\<not> observation_enabled (run_updates init_optimizer ?us)"
    using t4 r4 by (simp add: Let_def)
  have "state_of (update_observation_time (run_updates init_optimizer ?us) 3 40) =
          (run_updates init_optimizer ?us)
            \<lparr>lane_observation_times :=
               (lane_observation_times (run_updates init_optimizer ?us))[3 := min 40 30]\<rparr>"
    using t4 k rk unfolding Let_def by blast
  then have o5: "\<not> observation_enabled
      (state_of (update_observation_time (run_updates init_optimizer ?us) 3 40))"
    using o4 by simp
  have run5: "run_updates init_optimizer [(0, 30), (1, 31), (2, 45), (3, 30), (3, 40)]
      = state_of (update_observation_time (run_updates init_optimizer ?us) 3 40)"
    by simp
  have f: "flips (mode_trace init_optimizer [(0, 30), (1, 31), (2, 45), (3, 30), (3, 40)]) = 1"
    by (simp add: eval_observation)
  from r3 k rk o3 o4 o5 run5 f show ?thesis by simp
qed

text \<open>
  Claim C9.  For every lane id from 0 to 3 and every non-negative elapsed
  time, \<^verbatim>\<open>update_observation_time\<close> returns normally and the observation time
  stored for that lane is \<open>min e 30\<close>, hence at most 30.
\<close>

theorem observation_time_capped:
  assumes "four_slots s" and "lane \<in> {0, 1, 2, 3}" and "0 \<le> e"
  shows "\<exists>s'. update_observation_time s lane e = Inr s' \<and>
           lane_observation_times s' ! nat lane = min e 30 \<and>
           lane_observation_times s' ! nat lane \<le> 30"
proof -
  from assms(2) have r: "0 \<le> lane" "lane < 4" by auto
  with assms(1) have k: "py_index (lanes_ready s) lane = Some (nat lane)"
    by (simp add: py_index_in_range four_slots_def)
  from assms(1) r have len: "nat lane < length (lane_observation_times s)"
    by (simp add: four_slots_def)
  show ?thesis
    using r k len
    by (simp add: update_observation_time_four_slots [OF assms(1)] observation_duration_def)
qed

theorem observation_time_capped_witness:
  "four_slots init_optimizer \<and> (2::int) \<in> {0, 1, 2, 3} \<and> (0::int) \<le> 1000 \<and>
   (\<exists>s'. update_observation_time init_optimizer 2 1000 = Inr s' \<and>
      lane_observation_times s' ! nat 2 = 30)"
proof -
  have l: "(2::int) \<in> {0, 1, 2, 3}" and e: "(0::int) \<le> 1000" by simp_all
  from observation_time_capped [OF four_slots_init l e]
  obtain s' where "update_observation_time init_optimizer 2 1000 = Inr s'"
    and "lane_observation_times s' ! nat 2 = min 1000 30"
    by blast
  then have "\<exists>s'. update_observation_time init_optimizer 2 1000 = Inr s' \<and>
      lane_observation_times s' ! nat 2 = 30"
    by simp
  with four_slots_init l e show ?thesis by blast
qed


section \<open>The elapsed-time update\<close>

text \<open>
  Claim C4, as it is stated, at a concrete sequence.  From the initial state,
  \<^verbatim>\<open>update_phase_elapsed_time(0, 10)\<close> stores 10 for lane 0, and the next call
  \<^verbatim>\<open>update_phase_elapsed_time(0, 5)\<close> lowers the stored value to 5, with no
  cycle installed in between.
\<close>

theorem elapsed_update_decreases:
  "phase_elapsed_times (state_of (update_phase_elapsed_time init_optimizer 0 10)) ! 0 = 10 \<and>
   phase_elapsed_times
     (state_of (update_phase_elapsed_time
        (state_of (update_phase_elapsed_time init_optimizer 0 10)) 0 5)) ! 0 = 5"
  by (simp add: update_phase_elapsed_time_def py_set_def py_index_def state_of_def
      init_optimizer_def)

text \<open>
  Claim C4, amended.  For every lane id from 0 to 3, a call of
  \<^verbatim>\<open>update_phase_elapsed_time\<close> returns normally and stores the value it is
  given in that lane's slot, leaving everything else as it was; the stored
  value after the call is at least the value before the call exactly when the
  value given is at least the value before.
\<close>

theorem elapsed_update_stores:
  assumes "four_slots s" and "lane \<in> {0, 1, 2, 3}"
  shows "\<exists>s'. update_phase_elapsed_time s lane e = Inr s' \<and>
           s' = s\<lparr>phase_elapsed_times := (phase_elapsed_times s)[nat lane := e]\<rparr> \<and>
           phase_elapsed_times s' ! nat lane = e \<and>
           (phase_elapsed_times s ! nat lane \<le> phase_elapsed_times s' ! nat lane
              \<longleftrightarrow> phase_elapsed_times s ! nat lane \<le> e)"
proof -
  from assms(2) have r: "0 \<le> lane" "lane < 4" by auto
  with assms(1) have k: "py_index (phase_elapsed_times s) lane = Some (nat lane)"
    by (simp add: py_index_in_range four_slots_def)
  from assms(1) r have len: "nat lane < length (phase_elapsed_times s)"
    by (simp add: four_slots_def)
  show ?thesis
    using r k len by (simp add: update_phase_elapsed_time_four_slots [OF assms(1)])
qed

theorem elapsed_update_stores_witness:
  "four_slots init_optimizer \<and> (3::int) \<in> {0, 1, 2, 3} \<and>
   (\<exists>s'. update_phase_elapsed_time init_optimizer 3 12 = Inr s' \<and>
      phase_elapsed_times s' = [0, 0, 0, 12])"
proof -
  have l: "(3::int) \<in> {0, 1, 2, 3}" by simp
  from elapsed_update_stores [OF four_slots_init l, of 12]
  obtain s' where "update_phase_elapsed_time init_optimizer 3 12 = Inr s'"
    and "s' = init_optimizer\<lparr>phase_elapsed_times :=
               (phase_elapsed_times init_optimizer)[nat 3 := 12]\<rparr>"
    by blast
  then have "\<exists>s'. update_phase_elapsed_time init_optimizer 3 12 = Inr s' \<and>
      phase_elapsed_times s' = [0, 0, 0, 12]"
    by (simp add: init_optimizer_def numeral_3_eq_3)
  with four_slots_init l show ?thesis by blast
qed


section \<open>Lane identifiers outside 0 to 3\<close>

text \<open>
  Claim C5, as it is stated, at a concrete input.  On the initial state none
  of the five operations signals an error for the lane id 4: the signal-state
  query returns RED, the remaining-green query returns 0, and the three
  updates return with the state unchanged.
\<close>

theorem lane_four_no_error:
  "get_signal_state init_optimizer 4 = Inr RED \<and>
   get_green_time init_optimizer 4 = Inr 0 \<and>
   update_observation_time init_optimizer 4 30 = Inr init_optimizer \<and>
   record_observation_vehicle_count init_optimizer 4 7 = Inr init_optimizer \<and>
   update_phase_elapsed_time init_optimizer 4 10 = Inr init_optimizer"
  by (simp add: get_signal_state_def get_green_time_def update_observation_time_def
      record_observation_vehicle_count_def update_phase_elapsed_time_def
      num_phases_def init_optimizer_def)

text \<open>
  Claim C5, amended.  On a state with four-slot lists, a lane id above 3 is
  absorbed without an error by each of the five operations (the signal-state
  query returns RED, the remaining-green query returns 0, the
  observation-time update, the observation-count record and the elapsed-time
  update return with the state unchanged), and a lane id below \<open>-4\<close> makes
  each of them raise \<^verbatim>\<open>IndexError\<close> with the state unchanged.
\<close>

theorem lane_out_of_range:
  assumes "four_slots s"
  shows "(3 < lane \<longrightarrow>
            get_signal_state s lane = Inr RED \<and>
            get_green_time s lane = Inr 0 \<and>
            update_observation_time s lane e = Inr s \<and>
            record_observation_vehicle_count s lane c = Inr s \<and>
            update_phase_elapsed_time s lane e = Inr s) \<and>
         (lane < - 4 \<longrightarrow>
            get_signal_state s lane = Inl IndexError \<and>
            get_green_time s lane = Inl IndexError \<and>
            update_observation_time s lane e = Inl (IndexError, s) \<and>
            record_observation_vehicle_count s lane c = Inl (IndexError, s) \<and>
            update_phase_elapsed_time s lane e = Inl (IndexError, s))"
proof -
  from assms have len: "length (current_cycle_timings s) = 4"
    "length (phase_elapsed_times s) = 4" "length (lanes_ready s) = 4"
    "length (observation_vehicle_counts s) = 4"
    by (simp_all add: four_slots_def)
  have high: "get_signal_state s lane = Inr RED \<and>
            get_green_time s lane = Inr 0 \<and>
            update_observation_time s lane e = Inr s \<and>
            record_observation_vehicle_count s lane c = Inr s \<and>
            update_phase_elapsed_time s lane e = Inr s" if "3 < lane"
    using that len
    by (simp add: get_signal_state_def get_green_time_def num_phases_def
        update_observation_time_four_slots [OF assms] record_observation_vehicle_count_cases
        update_phase_elapsed_time_four_slots [OF assms])
  have low: "get_signal_state s lane = Inl IndexError \<and>
            get_green_time s lane = Inl IndexError \<and>
            update_observation_time s lane e = Inl (IndexError, s) \<and>
            record_observation_vehicle_count s lane c = Inl (IndexError, s) \<and>
            update_phase_elapsed_time s lane e = Inl (IndexError, s)" if "lane < - 4"
    using that len
    by (simp add: get_signal_state_def get_green_time_def num_phases_def py_get_def
        py_index_too_small
        update_observation_time_four_slots [OF assms] record_observation_vehicle_count_cases
        update_phase_elapsed_time_four_slots [OF assms])
  from high low show ?thesis by blast
qed

theorem lane_out_of_range_witness:
  "four_slots init_optimizer \<and> (3::int) < 9 \<and> (- 7 :: int) < - 4 \<and>
   get_signal_state init_optimizer 9 = Inr RED \<and>
   update_observation_time init_optimizer 9 30 = Inr init_optimizer \<and>
   get_green_time init_optimizer (- 7) = Inl IndexError \<and>
   update_phase_elapsed_time init_optimizer (- 7) 12 = Inl (IndexError, init_optimizer)"
proof -
  have h: "(3::int) < 9" and l: "(- 7 :: int) < - 4" by simp_all
  from lane_out_of_range [OF four_slots_init, of 9 30 0] h
  have a: "get_signal_state init_optimizer 9 = Inr RED"
    "update_observation_time init_optimizer 9 30 = Inr init_optimizer"
    by blast+
  from lane_out_of_range [OF four_slots_init, of "- 7" 12 0] l
  have b: "get_green_time init_optimizer (- 7) = Inl IndexError"
    "update_phase_elapsed_time init_optimizer (- 7) 12 = Inl (IndexError, init_optimizer)"
    by blast+
  from four_slots_init h l a b show ?thesis by blast
qed


section \<open>The cycle timing predictor\<close>

text \<open>
  Claim C3.  The predictor maps each lane's vehicle count, independently of
  the other lanes, to a green duration by the bucket table: a count of 0 gives
  0, counts 1 to 4 give 15, counts 5 to 9 give 25, counts 10 to 14 give 35 and
  counts of 15 or more give 55.  The result always has four entries, the entry
  of lane \<open>i\<close> is determined by the count stored for lane \<open>i\<close> alone (a lane
  missing from the dictionary counts as 0), and for the counts 0, 4, 9, 20 the
  result is 0, 15, 25, 55.
\<close>

theorem predict_bucket_table:
  "length (predict_next_cycle_timings m) = 4 \<and>
   (\<forall>i \<in> {0, 1, 2, 3}.
      predict_next_cycle_timings m ! nat i =
        bucket_duration (case m i of None \<Rightarrow> 0 | Some c \<Rightarrow> c)) \<and>
   bucket_duration 0 = 0 \<and>
   (\<forall>c. 1 \<le> c \<and> c \<le> 4 \<longrightarrow> bucket_duration c = 15) \<and>
   (\<forall>c. 5 \<le> c \<and> c \<le> 9 \<longrightarrow> bucket_duration c = 25) \<and>
   (\<forall>c. 10 \<le> c \<and> c \<le> 14 \<longrightarrow> bucket_duration c = 35) \<and>
   (\<forall>c. 15 \<le> c \<longrightarrow> bucket_duration c = 55) \<and>
   predict_next_cycle_timings [0 \<mapsto> 0, 1 \<mapsto> 4, 2 \<mapsto> 9, 3 \<mapsto> 20] = [0, 15, 25, 55]"
  by (simp add: predict_next_cycle_timings_def bucket_duration_def)

theorem predict_bucket_table_witness:
  "predict_next_cycle_timings [0 \<mapsto> 3, 1 \<mapsto> 7, 2 \<mapsto> 12, 3 \<mapsto> 15] ! nat 2 = 35 \<and>
   bucket_duration 3 = 15 \<and> bucket_duration 7 = 25 \<and>
   bucket_duration 12 = 35 \<and> bucket_duration 15 = 55"
proof -
  note t = predict_bucket_table [of "[0 \<mapsto> 3, 1 \<mapsto> 7, 2 \<mapsto> 12, 3 \<mapsto> 15]"]
  have a: "predict_next_cycle_timings [0 \<mapsto> 3, 1 \<mapsto> 7, 2 \<mapsto> 12, 3 \<mapsto> 15] ! nat 2
             = bucket_duration 12"
    using t by simp
  have b: "bucket_duration 3 = 15" "bucket_duration 7 = 25"
          "bucket_duration 12 = 35" "bucket_duration 15 = 55"
    using t by simp_all
  show ?thesis using a b by simp
qed


section \<open>Installing a cycle\<close>

text \<open>
  Claim C6.  For every list of exactly four durations, \<^verbatim>\<open>set_cycle_timing\<close>
  returns normally, the cycle timing vector is that list, the elapsed
  counters are four zeros, the cycle counter is one more than before, and
  nothing else in the state changes.
\<close>

theorem set_cycle_timing_installs:
  assumes "length durations = 4"
  shows "\<exists>s'. set_cycle_timing s durations = Inr s' \<and>
           current_cycle_timings s' = durations \<and>
           phase_elapsed_times s' = [0, 0, 0, 0] \<and>
           cycle_number s' = cycle_number s + 1 \<and>
           s' = s\<lparr>current_cycle_timings := durations,
                   phase_elapsed_times := [0, 0, 0, 0],
                   cycle_number := cycle_number s + 1\<rparr>"
  using assms by (simp add: set_cycle_timing_def)

theorem set_cycle_timing_installs_witness:
  "length [22, 19, 24, 55 :: int] = 4 \<and>
   (\<exists>s'. set_cycle_timing init_optimizer [22, 19, 24, 55] = Inr s' \<and>
      current_cycle_timings s' = [22, 19, 24, 55] \<and>
      phase_elapsed_times s' = [0, 0, 0, 0] \<and>
      cycle_number s' = 1)"
proof -
  have len: "length [22, 19, 24, 55 :: int] = 4" by simp
  from set_cycle_timing_installs [OF len, of init_optimizer]
  obtain s' where "set_cycle_timing init_optimizer [22, 19, 24, 55] = Inr s'"
    and "current_cycle_timings s' = [22, 19, 24, 55]"
    and "phase_elapsed_times s' = [0, 0, 0, 0]"
    and "cycle_number s' = cycle_number init_optimizer + 1"
    by blast
  then show ?thesis by (auto simp: init_optimizer_def)
qed

text \<open>
  Claim C10.  A call of \<^verbatim>\<open>set_cycle_timing\<close> with a list whose length is not 4
  returns normally and leaves the whole state as it was (so the timing vector,
  the elapsed counters and the cycle counter are unchanged); and whatever the
  argument, a timing vector of length 4 has length 4 after the call.
\<close>

theorem set_cycle_timing_wrong_length:
  "(length ts \<noteq> 4 \<longrightarrow> set_cycle_timing s ts = Inr s) \<and>
   (length (current_cycle_timings s) = 4 \<longrightarrow>
      length (current_cycle_timings (state_of (set_cycle_timing s ts))) = 4)"
  by (simp add: set_cycle_timing_def state_of_def)

theorem set_cycle_timing_wrong_length_witness:
  "length [10, 20, 30 :: int] \<noteq> 4 \<and>
   set_cycle_timing init_optimizer [10, 20, 30] = Inr init_optimizer \<and>
   length (current_cycle_timings init_optimizer) = 4 \<and>
   length (current_cycle_timings (state_of (set_cycle_timing init_optimizer [10, 20, 30]))) = 4"
proof -
  have ne: "length [10, 20, 30 :: int] \<noteq> 4" by simp
  have len: "length (current_cycle_timings init_optimizer) = 4"
    by (simp add: init_optimizer_def)
  from set_cycle_timing_wrong_length [of "[10, 20, 30]" init_optimizer] ne len
  have "set_cycle_timing init_optimizer [10, 20, 30] = Inr init_optimizer"
    and "length (current_cycle_timings
           (state_of (set_cycle_timing init_optimizer [10, 20, 30]))) = 4"
    by blast+
  with ne len show ?thesis by blast
qed


section \<open>Each track is counted once\<close>










section \<open>Pushing onto a bounded queue\<close>

lemma push_room:
  assumes "int (length (items q)) < maxsize q"
  shows "push q x = Inr (q\<lparr>items := items q @ [x]\<rparr>)"
  using assms by (simp add: push_def put_nowait_def)

lemma push_full:
  assumes "0 < maxsize q" and "int (length (items q)) = maxsize q"
  shows "push q x = Inr (q\<lparr>items := tl (items q) @ [x]\<rparr>)"
proof -
  from assms obtain y ys where ys: "items q = y # ys"
    by (cases "items q") auto
  with assms show ?thesis
    by (simp add: push_def put_nowait_def get_nowait_def)
qed

lemma push_bounded:
  assumes "0 < maxsize q" and "int (length (items q)) \<le> maxsize q"
  shows "push q x =
     Inr (q\<lparr>items := drop (length (items q @ [x]) - nat (maxsize q)) (items q @ [x])\<rparr>)"
proof (cases "int (length (items q)) = maxsize q")
  case True
  with assms(1) have "items q \<noteq> []" by auto
  then have "drop (Suc 0) (items q @ [x]) = tl (items q) @ [x]"
    by (cases "items q") simp_all
  moreover from True have "length (items q @ [x]) - nat (maxsize q) = Suc 0"
    by (simp add: nat_eq_iff flip: True)
  ultimately show ?thesis
    using push_full [OF assms(1) True, of x] by simp
next
  case False
  with assms(2) have lt: "int (length (items q)) < maxsize q" by simp
  then have "length (items q @ [x]) - nat (maxsize q) = 0" by simp
  with push_room [OF lt, of x] show ?thesis by simp
qed

lemma push_all_bounded:
  assumes "0 < maxsize q" and "int (length (items q)) \<le> maxsize q"
  shows "push_all q xs =
     Inr (q\<lparr>items := drop (length (items q @ xs) - nat (maxsize q)) (items q @ xs)\<rparr>)"
  using assms
proof (induction xs arbitrary: q)
  case Nil
  then show ?case by simp
next
  case (Cons x xs)
  let ?q' = "q\<lparr>items := drop (length (items q @ [x]) - nat (maxsize q)) (items q @ [x])\<rparr>"
  have p: "push q x = Inr ?q'"
    by (rule push_bounded [OF Cons.prems])
  have m: "0 < maxsize ?q'" using Cons.prems by simp
  have l: "int (length (items ?q')) \<le> maxsize ?q'" using Cons.prems by simp
  have "drop (length (items ?q' @ xs) - nat (maxsize ?q')) (items ?q' @ xs)
      = drop (length (items q @ x # xs) - nat (maxsize q)) (items q @ x # xs)"
  proof (cases "int (length (items q)) = maxsize q")
    case True
    then have n: "nat (maxsize q) = length (items q)" by (simp flip: True)
    from True Cons.prems(1) have "items q \<noteq> []" by auto
    then obtain y ys where ys: "items q = y # ys" by (cases "items q") auto
    show ?thesis by (simp add: n ys)
  next
    case False
    with Cons.prems(2) have "length (items q) < nat (maxsize q)" by simp
    then show ?thesis by simp
  qed
  with Cons.IH [OF m l] p show ?case by simp
qed

text \<open>
  Claim C8.  The frame queues have capacity 2 and the data queues capacity 5.
  On a queue of positive capacity that holds no more than its capacity, the
  producer's push always returns (it never waits and never raises), the queue
  still holds no more than its capacity, and the new item is appended after
  the oldest item was removed if the queue was full.  Pushing a list of items
  one after the other leaves the last \<open>maxsize\<close> items of everything that was
  queued and pushed, so pushing \<open>N + 2\<close> items into an empty queue of capacity
  \<open>N\<close> leaves the \<open>N\<close> most recent ones.
\<close>

theorem bounded_queue_drop_oldest:
  assumes "0 < maxsize q" and "int (length (items q)) \<le> maxsize q"
  shows "maxsize (frame_queue :: 'a py_queue) = 2 \<and>
         maxsize (data_queue :: 'a py_queue) = 5 \<and>
         (\<exists>q'. push q x = Inr q' \<and> maxsize q' = maxsize q \<and>
            int (length (items q')) \<le> maxsize q \<and>
            items q' = (if int (length (items q)) < maxsize q then items q @ [x]
                        else tl (items q) @ [x])) \<and>
         (\<exists>q'. push_all q xs = Inr q' \<and> maxsize q' = maxsize q \<and>
            int (length (items q')) \<le> maxsize q \<and>
            items q' = drop (length (items q @ xs) - nat (maxsize q)) (items q @ xs)) \<and>
         (items q = [] \<and> length xs = nat (maxsize q) + 2 \<longrightarrow>
            (\<exists>q'. push_all q xs = Inr q' \<and> items q' = drop 2 xs \<and>
               length (items q') = nat (maxsize q)))"
proof -
  have one: "\<exists>q'. push q x = Inr q' \<and> maxsize q' = maxsize q \<and>
            int (length (items q')) \<le> maxsize q \<and>
            items q' = (if int (length (items q)) < maxsize q then items q @ [x]
                        else tl (items q) @ [x])"
  proof (cases "int (length (items q)) < maxsize q")
    case True
    with push_room [OF True, of x] show ?thesis by simp
  next
    case False
    with assms(2) have eq: "int (length (items q)) = maxsize q" by simp
    with assms(1) have "items q \<noteq> []" by auto
    with push_full [OF assms(1) eq, of x] False eq show ?thesis by simp
  qed
  have many: "\<exists>q'. push_all q xs = Inr q' \<and> maxsize q' = maxsize q \<and>
            int (length (items q')) \<le> maxsize q \<and>
            items q' = drop (length (items q @ xs) - nat (maxsize q)) (items q @ xs)"
    using push_all_bounded [OF assms, of xs] assms by simp
  have surplus: "\<exists>q'. push_all q xs = Inr q' \<and> items q' = drop 2 xs \<and>
               length (items q') = nat (maxsize q)"
    if "items q = []" "length xs = nat (maxsize q) + 2"
    using push_all_bounded [OF assms, of xs] that by simp
  have caps: "maxsize (frame_queue :: 'a py_queue) = 2"
    "maxsize (data_queue :: 'a py_queue) = 5"
    by (simp_all add: frame_queue_def data_queue_def)
  from caps one many surplus show ?thesis by blast
qed

theorem bounded_queue_drop_oldest_witness:
  "0 < maxsize (frame_queue :: nat py_queue) \<and>
   int (length (items (frame_queue :: nat py_queue))) \<le> maxsize (frame_queue :: nat py_queue) \<and>
   items (frame_queue :: nat py_queue) = [] \<and>
   length [1, 2, 3, 4 :: nat] = nat (maxsize (frame_queue :: nat py_queue)) + 2 \<and>
   (\<exists>q'. push_all (frame_queue :: nat py_queue) [1, 2, 3, 4] = Inr q' \<and> items q' = [3, 4])"
proof -
  have m: "0 < maxsize (frame_queue :: nat py_queue)"
    and l: "int (length (items (frame_queue :: nat py_queue))) \<le> maxsize (frame_queue :: nat py_queue)"
    by (simp_all add: frame_queue_def)
  from bounded_queue_drop_oldest [OF m l, of 0 "[1, 2, 3, 4]"]
  obtain q' where "push_all (frame_queue :: nat py_queue) [1, 2, 3, 4] = Inr q'"
    and "items q' = drop (length (items (frame_queue :: nat py_queue) @ [1, 2, 3, 4])
                            - nat (maxsize (frame_queue :: nat py_queue)))
                      (items (frame_queue :: nat py_queue) @ [1, 2, 3, 4])"
    by blast
  then have "\<exists>q'. push_all (frame_queue :: nat py_queue) [1, 2, 3, 4] = Inr q' \<and> items q' = [3, 4]"
    by (simp add: frame_queue_def)
  moreover have "items (frame_queue :: nat py_queue) = []"
    and "length [1, 2, 3, 4 :: nat] = nat (maxsize (frame_queue :: nat py_queue)) + 2"
    by (simp_all add: frame_queue_def)
  ultimately show ?thesis using m l by blast
qed

end
